theory Spec2Isabelle
  imports
    Complex_Main
    "HOL-Library.Multiset"
    "HOL-Library.Char_ord"
    "HOL-Library.List_Lexorder"
    "HOL-Library.Product_Lexorder"
    "HOL-Library.Log_Nat"
begin

section \<open>The One Drug Database notebook: counting how codes map\<close>

text \<open>
  The notebook \<^verbatim>\<open>one-drug-database-analysis.py\<close> is a linear script. Its code-mapping
  table \<^verbatim>\<open>bnf_mapping\<close> has the columns \<^verbatim>\<open>old_code\<close> and \<^verbatim>\<open>new_code\<close>; the fan-out
  part of the script reads one of the two columns and counts its values:
  \<^verbatim>\<open>
  old_code_counts = Counter(bnf_mapping['old_code'])
  old_code_count_distribution = sorted(Counter(old_code_counts.values()).items())
  new_code_counts = Counter(bnf_mapping['new_code'])
  new_code_count_distribution = sorted(Counter(new_code_counts.values()).items())
  \<close>
  A mapping record is the pair of its old and its new code. Strings are byte lists, ordered
  lexicographically by byte value, as Python orders \<^verbatim>\<open>str\<close> by code point.
\<close>

type_synonym code_pair = "string \<times> string"

text \<open>
  \<^verbatim>\<open>collections.Counter\<close> is a dictionary, which keeps its keys in the order of their first
  insertion. Counting one element is \<^verbatim>\<open>self[elem] = self.get(elem, 0) + 1\<close>: a key that is
  present keeps its place, a new key goes to the end.
\<close>

fun count_elem :: "'a \<Rightarrow> ('a \<times> nat) list \<Rightarrow> ('a \<times> nat) list" where
  "count_elem x [] = [(x, 1)]"
| "count_elem x ((k, c) # kvs) =
     (if k = x then (k, c + 1) # kvs else (k, c) # count_elem x kvs)"

definition Counter :: "'a list \<Rightarrow> ('a \<times> nat) list" where
  "Counter xs = fold count_elem xs []"

definition old_code_counts :: "code_pair list \<Rightarrow> (string \<times> nat) list" where
  "old_code_counts bnf_mapping = Counter (map fst bnf_mapping)"

definition new_code_counts :: "code_pair list \<Rightarrow> (string \<times> nat) list" where
  "new_code_counts bnf_mapping = Counter (map snd bnf_mapping)"

text \<open>
  \<^verbatim>\<open>sorted(Counter(counts.values()).items())\<close>: the histogram as a list of pairs
  (fan-out, number of codes with that fan-out), in ascending order of the pairs.
\<close>

definition count_distribution :: "(string \<times> nat) list \<Rightarrow> (nat \<times> nat) list" where
  "count_distribution counts = sort (Counter (map snd counts))"

definition old_code_count_distribution :: "code_pair list \<Rightarrow> (nat \<times> nat) list" where
  "old_code_count_distribution bnf_mapping = count_distribution (old_code_counts bnf_mapping)"

definition new_code_count_distribution :: "code_pair list \<Rightarrow> (nat \<times> nat) list" where
  "new_code_count_distribution bnf_mapping = count_distribution (new_code_counts bnf_mapping)"

text \<open>The sum over the histogram's entries of fan-out times number of codes.\<close>

definition weighted_sum :: "(nat \<times> nat) list \<Rightarrow> nat" where
  "weighted_sum distribution = (\<Sum>(c, k) \<leftarrow> distribution. c * k)"

text \<open>The two directions of the analysis, and the two copies of the code seen as one function.\<close>

datatype direction = old_to_new | new_to_old

fun source :: "direction \<Rightarrow> code_pair \<Rightarrow> string" where
  "source old_to_new r = fst r"
| "source new_to_old r = snd r"

fun target :: "direction \<Rightarrow> code_pair \<Rightarrow> string" where
  "target old_to_new r = snd r"
| "target new_to_old r = fst r"

fun fanout :: "direction \<Rightarrow> code_pair list \<Rightarrow> (string \<times> nat) list" where
  "fanout old_to_new records = old_code_counts records"
| "fanout new_to_old records = new_code_counts records"

fun histogram :: "direction \<Rightarrow> code_pair list \<Rightarrow> (nat \<times> nat) list" where
  "histogram old_to_new records = old_code_count_distribution records"
| "histogram new_to_old records = new_code_count_distribution records"

text \<open>The targets that a source code is paired with in the record list.\<close>

definition targets_of :: "direction \<Rightarrow> code_pair list \<Rightarrow> string \<Rightarrow> string list" where
  "targets_of d records s = map (target d) (filter (\<lambda>r. source d r = s) records)"

section \<open>Loading and filtering the code-mapping table\<close>

text \<open>
  \<^verbatim>\<open>
  bnf_mapping = bnf_mapping_raw.rename(columns={
      'Current BNF Code': 'old_code',
      'MDR: BNF Description': 'old_name',
      'dm+d: BNF Description': 'new_name',
      'New BNF Code': 'new_code',
      'BNF Code Changed (Y/N)': 'changed'
  })
  bnf_mapping = bnf_mapping[bnf_mapping['changed'] == 'Y']
  bnf_mapping = bnf_mapping[~bnf_mapping['old_code'].str.startswith('19')]
  bnf_mapping = bnf_mapping[~bnf_mapping['new_code'].str.startswith('19')]
  bnf_mapping = bnf_mapping.sort_values(['old_code', 'new_code'])
  \<close>
  A data frame is its list of column labels and its list of rows, each row holding one cell
  per column (\<open>rectangular\<close>); the cells of the spreadsheet are text. The labels of a frame
  are distinct, as \<^verbatim>\<open>read_excel\<close> makes them; the properties below ask for this after the
  renaming too, where a sheet that already had a column \<^verbatim>\<open>old_code\<close> would break it. The
  errors are the exceptions that the modelled library calls raise.
\<close>

datatype pd_error = KeyError | ValueError | ZeroDivisionError

record frame =
  columns :: "string list"
  rows :: "string list list"

definition rectangular :: "frame \<Rightarrow> bool" where
  "rectangular df = list_all (\<lambda>r. length r = length (columns df)) (rows df)"

definition column_rename_map :: "(string \<times> string) list" where
  "column_rename_map =
     [(''Current BNF Code'', ''old_code''),
      (''MDR: BNF Description'', ''old_name''),
      (''dm+d: BNF Description'', ''new_name''),
      (''New BNF Code'', ''new_code''),
      (''BNF Code Changed (Y/N)'', ''changed'')]"

text \<open>
  \<^verbatim>\<open>DataFrame.rename(columns=mapper)\<close> with its default \<^verbatim>\<open>errors='ignore'\<close>: a label that
  the mapper knows is replaced, every other label stays, and a mapper key that labels no
  column is ignored.
\<close>

definition rename :: "(string \<times> string) list \<Rightarrow> frame \<Rightarrow> frame" where
  "rename mapper df =
     df\<lparr>columns := map (\<lambda>c. case map_of mapper c of Some c' \<Rightarrow> c' | None \<Rightarrow> c) (columns df)\<rparr>"

fun index_of :: "'a list \<Rightarrow> 'a \<Rightarrow> nat option" where
  "index_of [] c = None"
| "index_of (x # xs) c = (if x = c then Some 0 else map_option Suc (index_of xs c))"

text \<open>\<^verbatim>\<open>df[label]\<close>: the cells of one column, or \<^verbatim>\<open>KeyError\<close> when no column has the label.\<close>

definition getitem :: "frame \<Rightarrow> string \<Rightarrow> pd_error + string list" where
  "getitem df label =
     (case index_of (columns df) label of
        None \<Rightarrow> Inl KeyError
      | Some i \<Rightarrow> Inr (map (\<lambda>r. r ! i) (rows df)))"

text \<open>\<^verbatim>\<open>df[mask]\<close> with a boolean column: the rows whose mask entry is true, in their order.\<close>

definition select_rows :: "frame \<Rightarrow> bool list \<Rightarrow> frame" where
  "select_rows df keep = df\<lparr>rows := map fst (filter snd (zip (rows df) keep))\<rparr>"

definition startswith :: "string \<Rightarrow> string \<Rightarrow> bool" where
  "startswith s pat = (take (length pat) s = pat)"

text \<open>
  \<^verbatim>\<open>df.sort_values(by)\<close> with a list of labels sorts the rows by the tuple of the cells
  under these labels, lexicographically and ascending; rows with equal keys keep their
  order. A label of no column raises \<^verbatim>\<open>KeyError\<close>.
\<close>

fun lookup_all :: "string list \<Rightarrow> string list \<Rightarrow> nat list option" where
  "lookup_all cols [] = Some []"
| "lookup_all cols (b # bs) =
     (case index_of cols b of
        None \<Rightarrow> None
      | Some i \<Rightarrow> map_option ((#) i) (lookup_all cols bs))"

definition sort_values :: "frame \<Rightarrow> string list \<Rightarrow> pd_error + frame" where
  "sort_values df by =
     (case lookup_all (columns df) by of
        None \<Rightarrow> Inl KeyError
      | Some idxs \<Rightarrow> Inr (df\<lparr>rows := sort_key (\<lambda>r. map (\<lambda>i. r ! i) idxs) (rows df)\<rparr>))"

definition bnf_mapping :: "frame \<Rightarrow> pd_error + frame" where
  "bnf_mapping bnf_mapping_raw =
     (let df0 = rename column_rename_map bnf_mapping_raw in
      case getitem df0 ''changed'' of
        Inl e \<Rightarrow> Inl e
      | Inr changed \<Rightarrow>
          let df1 = select_rows df0 (map (\<lambda>v. v = ''Y'') changed) in
          case getitem df1 ''old_code'' of
            Inl e \<Rightarrow> Inl e
          | Inr old_code \<Rightarrow>
              let df2 = select_rows df1 (map (\<lambda>v. \<not> startswith v ''19'') old_code) in
              case getitem df2 ''new_code'' of
                Inl e \<Rightarrow> Inl e
              | Inr new_code \<Rightarrow>
                  let df3 = select_rows df2 (map (\<lambda>v. \<not> startswith v ''19'') new_code) in
                  sort_values df3 [''old_code'', ''new_code''])"

text \<open>Two small spreadsheets: one with every expected column, one without the two descriptions.\<close>

definition example_raw :: frame where
  "example_raw =
     \<lparr>columns = [''Current BNF Code'', ''MDR: BNF Description'', ''dm+d: BNF Description'',
                 ''New BNF Code'', ''BNF Code Changed (Y/N)''],
      rows = [[''0B'', ''n1'', ''m1'', ''0Z'', ''Y''],
              [''0A'', ''n2'', ''m2'', ''0C'', ''Y''],
              [''0A'', ''n2'', ''m2'', ''0B'', ''N''],
              [''19A'', ''n4'', ''m4'', ''0D'', ''Y''],
              [''0A'', ''n5'', ''m5'', ''190'', ''Y''],
              [''0A'', ''n3'', ''m3'', ''0A'', ''Y'']]\<rparr>"

definition example_raw_without_descriptions :: frame where
  "example_raw_without_descriptions =
     \<lparr>columns = [''Current BNF Code'', ''New BNF Code'', ''BNF Code Changed (Y/N)''],
      rows = [[''0B'', ''0Z'', ''Y'']]\<rparr>"

section \<open>Concentration of items and net cost\<close>

text \<open>
  \<^verbatim>\<open>
  items1, net_cost1 = df1['items'], df1['net_cost']
  items1.sum() / total_items * 100
  for percentile in [0.01, 0.05, 0.1, 0.2]:
      print(percentile, items1[items1 > items1.quantile(1 - percentile)].sum() / items1.sum())
  df1.sort_values(['items'], ascending=False).head(10)
  \<close>
  The figures are computed by the machine: the items column is an array of 64-bit integers,
  whose sum wraps around, and every division is one of binary64 numbers, rounded to the
  nearest one, which returns \<^verbatim>\<open>inf\<close> or \<^verbatim>\<open>nan\<close> for a zero divisor and raises nothing.
\<close>

subsection \<open>Binary64 numbers\<close>

text \<open>
  A binary64 number is a rational here, or one of the three special values. Rounding is to
  the nearest number with 53 significant bits, a tie going to the even one; the exponent of
  the last bit is not below \<open>-1074\<close>, and a result of \<open>2\<^sup>1\<^sup>0\<^sup>2\<^sup>4\<close> or more is an infinity.
  Zero has one sign.
\<close>

datatype npfloat = Finite rat | PosInf | NegInf | NaN

definition round_half_even :: "rat \<Rightarrow> int" where
  "round_half_even x =
     (let f = \<lfloor>x\<rfloor>; r = x - of_int f
      in if r < 1 / 2 then f else if 1 / 2 < r then f + 1 else if even f then f else f + 1)"

text \<open>The exponent \<open>e\<close> with \<open>2\<^sup>e \<le> |x| < 2\<^sup>e\<^sup>+\<^sup>1\<close>, for \<open>x\<close> other than zero.\<close>

definition binade :: "rat \<Rightarrow> int" where
  "binade x =
     (let (a, b) = quotient_of \<bar>x\<bar>; d = bitlen a - bitlen b
      in if 2 powi d \<le> \<bar>x\<bar> then d else d - 1)"

definition nearest_binary64 :: "rat \<Rightarrow> rat" where
  "nearest_binary64 x =
     (let e = max (binade x) (- 1022);
          ulp = 2 powi (e - 52)
      in of_int (round_half_even (x / ulp)) * ulp)"

definition round64 :: "rat \<Rightarrow> npfloat" where
  "round64 x =
     (if x = 0 then Finite 0
      else
        let y = nearest_binary64 x
        in if 2 powi 1024 \<le> \<bar>y\<bar> then (if 0 < x then PosInf else NegInf) else Finite y)"

text \<open>Division and multiplication of binary64 numbers, as numpy's scalars do them.\<close>

fun true_divide :: "npfloat \<Rightarrow> npfloat \<Rightarrow> npfloat" where
  "true_divide NaN y = NaN"
| "true_divide x NaN = NaN"
| "true_divide (Finite x) (Finite y) =
     (if y \<noteq> 0 then round64 (x / y)
      else if 0 < x then PosInf
      else if x < 0 then NegInf
      else NaN)"
| "true_divide (Finite x) y = Finite 0"
| "true_divide PosInf (Finite y) = (if y < 0 then NegInf else PosInf)"
| "true_divide NegInf (Finite y) = (if y < 0 then PosInf else NegInf)"
| "true_divide x y = NaN"

fun multiply :: "npfloat \<Rightarrow> npfloat \<Rightarrow> npfloat" where
  "multiply NaN y = NaN"
| "multiply x NaN = NaN"
| "multiply (Finite x) (Finite y) = round64 (x * y)"
| "multiply (Finite x) PosInf = (if 0 < x then PosInf else if x < 0 then NegInf else NaN)"
| "multiply (Finite x) NegInf = (if 0 < x then NegInf else if x < 0 then PosInf else NaN)"
| "multiply PosInf (Finite y) = (if 0 < y then PosInf else if y < 0 then NegInf else NaN)"
| "multiply NegInf (Finite y) = (if 0 < y then NegInf else if y < 0 then PosInf else NaN)"
| "multiply PosInf PosInf = PosInf"
| "multiply NegInf NegInf = PosInf"
| "multiply x y = NegInf"

text \<open>Comparisons with \<^verbatim>\<open>nan\<close> are false.\<close>

fun float_less :: "npfloat \<Rightarrow> npfloat \<Rightarrow> bool" where
  "float_less NaN y = False"
| "float_less x NaN = False"
| "float_less (Finite x) (Finite y) = (x < y)"
| "float_less PosInf y = False"
| "float_less x NegInf = False"
| "float_less x y = True"

fun less_equal :: "npfloat \<Rightarrow> npfloat \<Rightarrow> bool" where
  "less_equal NaN y = False"
| "less_equal x NaN = False"
| "less_equal NegInf y = True"
| "less_equal x PosInf = True"
| "less_equal (Finite x) (Finite y) = (x \<le> y)"
| "less_equal x y = False"

subsection \<open>The items column\<close>

text \<open>
  \<^verbatim>\<open>items1 = df1['items']\<close> is a column of 64-bit integers when the cached query result has
  rows. When the cached file has a header and no row, \<^verbatim>\<open>read_csv\<close> gives the column the
  dtype \<^verbatim>\<open>object\<close>: \<open>Object\<close> is that empty column, whose sum is the Python integer 0. The
  \<^verbatim>\<open>net_cost\<close> column is an array of binary64 numbers; its sum is numpy's own summation of
  floats and is not part of this theory.
\<close>

datatype column = Int64 "int list" | Object

text \<open>The sum of an int64 array is taken modulo \<open>2\<^sup>6\<^sup>4\<close>, in the range from \<open>-2\<^sup>6\<^sup>3\<close>.\<close>

definition wrap64 :: "int \<Rightarrow> int" where
  "wrap64 n = (n + 2 ^ 63) mod 2 ^ 64 - 2 ^ 63"

definition int64_sum :: "int list \<Rightarrow> int" where
  "int64_sum xs = wrap64 (sum_list xs)"

text \<open>An integer that meets a binary64 number is converted to binary64 first.\<close>

definition float_of_int :: "int \<Rightarrow> npfloat" where
  "float_of_int n = round64 (of_int n)"

text \<open>Python's own division of two integers raises when the divisor is zero.\<close>

definition python_true_divide :: "int \<Rightarrow> int \<Rightarrow> pd_error + npfloat" where
  "python_true_divide a b =
     (if b = 0 then Inl ZeroDivisionError else Inr (round64 (of_int a / of_int b)))"

text \<open>
  \<^verbatim>\<open>items1.sum() / total_items * 100\<close>. The grand total comes from
  \<^verbatim>\<open>total_items, total_net_cost = df.iloc[0]\<close>, a row of an integer and a float, which pandas
  returns as a row of floats: \<^verbatim>\<open>total_items\<close> is a binary64 number.
\<close>

fun percent_of_grand_total :: "column \<Rightarrow> npfloat \<Rightarrow> npfloat" where
  "percent_of_grand_total (Int64 items1) total_items =
     multiply (true_divide (float_of_int (int64_sum items1)) total_items) (Finite 100)"
| "percent_of_grand_total Object total_items =
     multiply (true_divide (Finite 0) total_items) (Finite 100)"

text \<open>
  The body of the percentile loop,
  \<^verbatim>\<open>items1[items1 > items1.quantile(1 - percentile)].sum() / items1.sum()\<close>.
  \<^verbatim>\<open>Series.quantile\<close> is code of the library: it works in binary64, by steps that differ
  from one version of the library to the next, and it raises for an argument outside
  \<open>[0, 1]\<close>. It is the parameter \<open>quantile\<close> of the model, which is the rest of the line: the
  subtraction, the comparison of each item, converted to binary64, with the cutoff, the two
  sums and the division.
\<close>

fun captured_share ::
  "(column \<Rightarrow> npfloat \<Rightarrow> pd_error + npfloat) \<Rightarrow> column \<Rightarrow> rat \<Rightarrow> pd_error + npfloat" where
  "captured_share quantile (Int64 items1) percentile =
     (case quantile (Int64 items1) (round64 (1 - percentile)) of
        Inl e \<Rightarrow> Inl e
      | Inr cutoff \<Rightarrow>
          Inr (true_divide
                 (float_of_int (int64_sum (filter (\<lambda>x. float_less cutoff (float_of_int x)) items1)))
                 (float_of_int (int64_sum items1))))"
| "captured_share quantile Object percentile =
     (case quantile Object (round64 (1 - percentile)) of
        Inl e \<Rightarrow> Inl e
      | Inr cutoff \<Rightarrow> python_true_divide 0 0)"

fun percentile_loop ::
  "(column \<Rightarrow> npfloat \<Rightarrow> pd_error + npfloat) \<Rightarrow> column \<Rightarrow> rat list \<Rightarrow>
     pd_error + (rat \<times> npfloat) list" where
  "percentile_loop quantile items1 [] = Inr []"
| "percentile_loop quantile items1 (percentile # ps) =
     (case captured_share quantile items1 percentile of
        Inl e \<Rightarrow> Inl e
      | Inr share \<Rightarrow>
          (case percentile_loop quantile items1 ps of
             Inl e \<Rightarrow> Inl e
           | Inr printed \<Rightarrow> Inr ((percentile, share) # printed)))"

subsection \<open>The rows with the largest magnitudes\<close>

text \<open>
  \<^verbatim>\<open>df1.sort_values(['items'], ascending=False)\<close> sorts by one column: pandas reverses the
  rows, sorts them ascending by the column with numpy's \<^verbatim>\<open>argsort\<close> and reverses the result.
  No second key takes part. On an array of at most 16 elements numpy's default sort is
  insertion sort, and rows of equal magnitude then come out in the order of the frame. On a
  longer array the sort is not stable: its result is a sorted arrangement of the rows, and
  nothing more is said here about the order of equal magnitudes.
  \<^verbatim>\<open>head(n)\<close> keeps the first \<open>n\<close> rows. A row is an identifier with its magnitude.
\<close>

type_synonym series = "(string \<times> rat) list"

definition argsort :: "series \<Rightarrow> series" where
  "argsort df =
     (if length df \<le> 16 then sort_key snd df
      else SOME sorted_df. mset sorted_df = mset df \<and> sorted (map snd sorted_df))"

definition sort_values_descending :: "series \<Rightarrow> series" where
  "sort_values_descending df1 = rev (argsort (rev df1))"

definition head :: "nat \<Rightarrow> 'a list \<Rightarrow> 'a list" where
  "head n df = take n df"

definition top_n :: "nat \<Rightarrow> series \<Rightarrow> series" where
  "top_n n df1 = head n (sort_values_descending df1)"

text \<open>Rows of equal magnitude in ascending order of their identifiers.\<close>

definition ties_by_identifier :: "series \<Rightarrow> bool" where
  "ties_by_identifier df = sorted_wrt (\<lambda>a b. snd a = snd b \<longrightarrow> fst a \<le> fst b) df"

subsection \<open>The figures in the words of the specification\<close>

text \<open>
  The quantile of the specification: with the values in ascending order
  \<open>x\<^sub>0 \<le> \<dots> \<le> x\<^sub>n\<^sub>-\<^sub>1\<close> and \<open>h = (n - 1) * q\<close>, the value at rank \<open>\<lfloor>h\<rfloor>\<close> moved towards the
  next rank by the fractional part of \<open>h\<close>, in exact arithmetic.
\<close>

definition interpolate :: "rat list \<Rightarrow> rat \<Rightarrow> rat" where
  "interpolate x h =
     (let j = nat \<lfloor>h\<rfloor>
      in if j + 1 < length x then x ! j + (h - of_nat j) * (x ! (j + 1) - x ! j) else x ! j)"

definition linear_interpolation_quantile :: "rat list \<Rightarrow> rat \<Rightarrow> rat" where
  "linear_interpolation_quantile values q = interpolate (sort values) (of_nat (length values - 1) * q)"


text \<open>
  A quantile function for the examples: the quantile of the specification, rounded once;
  \<^verbatim>\<open>nan\<close> for a column without rows. The examples use it where \<open>(n - 1) * q\<close> is a whole
  number or the two neighbouring values are equal, so that the result is one of the values
  of the column, whatever steps the library takes.
\<close>

fun reference_quantile :: "column \<Rightarrow> npfloat \<Rightarrow> pd_error + npfloat" where
  "reference_quantile (Int64 xs) (Finite q) =
     (if q < 0 \<or> 1 < q then Inl ValueError
      else if xs = [] then Inr NaN
      else Inr (round64 (linear_interpolation_quantile (map of_int xs) q)))"
| "reference_quantile (Int64 xs) q = Inl ValueError"
| "reference_quantile Object (Finite q) = (if q < 0 \<or> 1 < q then Inl ValueError else Inr NaN)"
| "reference_quantile Object q = Inl ValueError"

text \<open>Five magnitudes whose sum, \<open>10 * 2\<^sup>6\<^sup>1\<close>, is beyond the 64-bit integers.\<close>

definition wrapping_items :: "int list" where
  "wrapping_items = [2 ^ 61, 2 ^ 62, 2 ^ 62, 2 ^ 62, 3 * 2 ^ 61]"


section \<open>Properties of the fan-out counts\<close>

subsection \<open>Facts about counting\<close>

lemma count_elem_keys: "map fst (count_elem x kvs) = (if x \<in> fst ` set kvs then map fst kvs else map fst kvs @ [x])"
  by (induction kvs) (force simp: image_iff)+

lemma count_elem_set_keys: "fst ` set (count_elem x kvs) = insert x (fst ` set kvs)"
proof -
  have "set (map fst (count_elem x kvs)) = insert x (set (map fst kvs))"
    unfolding count_elem_keys by auto
  then show ?thesis by simp
qed

lemma count_elem_distinct: "distinct (map fst kvs) \<Longrightarrow> distinct (map fst (count_elem x kvs))"
  unfolding count_elem_keys by auto

lemma count_elem_lookup:
  "map_of (count_elem x kvs) k =
     (if k = x then Some (case map_of kvs x of None \<Rightarrow> 1 | Some c \<Rightarrow> c + 1) else map_of kvs k)"
  by (induction kvs) auto

lemma count_elem_weighted:
  "(\<Sum>(k, c) \<leftarrow> count_elem x kvs. f k * c) = f x + (\<Sum>(k, c) \<leftarrow> kvs. f k * c)"
  by (induction kvs) (auto simp: algebra_simps)

lemma fold_count_elem_set_keys: "fst ` set (fold count_elem xs kvs) = set xs \<union> fst ` set kvs"
  by (induction xs arbitrary: kvs) (auto simp: count_elem_set_keys)

lemma fold_count_elem_distinct:
  "distinct (map fst kvs) \<Longrightarrow> distinct (map fst (fold count_elem xs kvs))"
  by (induction xs arbitrary: kvs) (auto simp: count_elem_distinct)

lemma fold_count_elem_weighted:
  "(\<Sum>(k, c) \<leftarrow> fold count_elem xs kvs. f k * c) = sum_list (map f xs) + (\<Sum>(k, c) \<leftarrow> kvs. f k * c)"
  by (induction xs arbitrary: kvs) (auto simp: count_elem_weighted)

lemma map_of_Some_key: "map_of kvs k = Some v \<Longrightarrow> k \<in> fst ` set kvs"
  by (metis domI dom_map_of_conv_image_fst)

lemma fold_count_elem_lookup:
  "map_of (fold count_elem xs kvs) k =
     (if k \<in> set xs \<or> k \<in> fst ` set kvs
      then Some (count_list xs k + (case map_of kvs k of None \<Rightarrow> 0 | Some c \<Rightarrow> c))
      else None)"
proof (induction xs arbitrary: kvs)
  case Nil
  show ?case
    by (cases "map_of kvs k") (auto simp: map_of_eq_None_iff dest: map_of_SomeD intro: rev_image_eqI)
next
  case (Cons x xs)
  show ?case
    unfolding fold_simps Cons.IH count_elem_set_keys
    by (auto simp: count_elem_lookup map_of_eq_None_iff split: option.splits dest: map_of_Some_key)
qed

lemma Counter_keys: "fst ` set (Counter xs) = set xs"
  by (simp add: Counter_def fold_count_elem_set_keys)

lemma Counter_distinct: "distinct (map fst (Counter xs))"
  by (simp add: Counter_def fold_count_elem_distinct)

lemma Counter_lookup:
  "map_of (Counter xs) k = (if k \<in> set xs then Some (count_list xs k) else None)"
  by (simp add: Counter_def fold_count_elem_lookup)

lemma Counter_weighted: "(\<Sum>(k, c) \<leftarrow> Counter xs. f k * c) = sum_list (map f xs)"
  by (simp add: Counter_def fold_count_elem_weighted)

lemma Counter_total: "sum_list (map snd (Counter xs)) = length xs"
proof -
  have "(\<Sum>(k, c) \<leftarrow> Counter xs. (\<lambda>_. 1) k * c) = sum_list (map (\<lambda>_. 1::nat) xs)"
    by (rule Counter_weighted)
  moreover have "(\<Sum>(k, c) \<leftarrow> Counter xs. (\<lambda>_. 1) k * c) = sum_list (map snd (Counter xs))"
    by (simp add: case_prod_unfold)
  ultimately show ?thesis by (simp add: sum_list_triv)
qed

lemma Counter_length: "length (Counter xs) = card (set xs)"
proof -
  have "length (Counter xs) = length (map fst (Counter xs))" by simp
  also have "\<dots> = card (set (map fst (Counter xs)))"
    using Counter_distinct [of xs] by (simp only: distinct_card)
  also have "\<dots> = card (set xs)" by (simp add: Counter_keys)
  finally show ?thesis .
qed

lemma count_list_length_filter: "count_list xs k = length (filter (\<lambda>x. x = k) xs)"
  by (induction xs) auto

lemma source_target_inj: "source d r = source d r' \<Longrightarrow> target d r = target d r' \<Longrightarrow> r = r'"
  by (cases d) (auto simp: prod_eq_iff)

lemma targets_of_distinct:
  assumes "distinct records"
  shows "distinct (targets_of d records s)"
proof -
  have "inj_on (target d) (set (filter (\<lambda>r. source d r = s) records))"
  proof (rule inj_onI)
    fix x y
    assume "x \<in> set (filter (\<lambda>r. source d r = s) records)"
      and "y \<in> set (filter (\<lambda>r. source d r = s) records)"
      and "target d x = target d y"
    then have "source d x = source d y" and "target d x = target d y" by simp_all
    then show "x = y" by (rule source_target_inj)
  qed
  with assms show ?thesis
    unfolding targets_of_def by (simp add: distinct_map)
qed

lemma source_old_to_new: "source old_to_new = fst"
  by (rule ext) simp

lemma source_new_to_old: "source new_to_old = snd"
  by (rule ext) simp

lemma fanout_Counter: "fanout d records = Counter (map (source d) records)"
  by (cases d) (simp_all add: old_code_counts_def new_code_counts_def source_old_to_new source_new_to_old)

lemma histogram_sort: "histogram d records = sort (Counter (map snd (fanout d records)))"
  by (cases d)
    (simp_all add: old_code_count_distribution_def new_code_count_distribution_def count_distribution_def)

lemma fanout_lookup:
  "map_of (fanout d records) s =
     (if s \<in> source d ` set records then Some (length (targets_of d records s)) else None)"
  by (simp add: fanout_Counter Counter_lookup targets_of_def count_list_length_filter filter_map comp_def)

lemma sum_list_sort: "sum_list (map f (sort xs)) = (sum_list (map f xs) :: nat)"
proof -
  have "sum_mset (mset (map f (sort xs))) = sum_mset (mset (map f xs))" by simp
  then show ?thesis unfolding sum_mset_sum_list .
qed

lemma histogram_values_sum:
  "sum_list (map snd (histogram d records)) = card (source d ` set records)"
  unfolding histogram_sort sum_list_sort
  by (simp add: Counter_total) (simp add: fanout_Counter Counter_length)

lemma histogram_weighted_sum: "weighted_sum (histogram d records) = length records"
proof -
  have "weighted_sum (histogram d records) =
        (\<Sum>(c, k) \<leftarrow> Counter (map snd (fanout d records)). (\<lambda>c. c) c * k)"
    unfolding histogram_sort weighted_sum_def by (rule sum_list_sort)
  also have "\<dots> = sum_list (map snd (fanout d records))"
    unfolding Counter_weighted by simp
  also have "\<dots> = length records"
    by (simp add: fanout_Counter Counter_total)
  finally show ?thesis .
qed

subsection \<open>What a fan-out count is\<close>

text \<open>
  Claim C3 says that \<open>fanout\<close> gives each source code the number of distinct target values
  of its group, so that exact-duplicate records change nothing. The code counts the values
  of the source column, one per record (lemma \<open>fanout_lookup\<close>): a record that occurs twice
  is counted twice.
\<close>

theorem fanout_counts_duplicate_records:
  "fanout old_to_new [(''A'', ''X''), (''A'', ''X'')] = [(''A'', 2)] \<and>
   fanout old_to_new (remdups [(''A'', ''X''), (''A'', ''X'')]) = [(''A'', 1)] \<and>
   card (set (targets_of old_to_new [(''A'', ''X''), (''A'', ''X'')] ''A'')) = 1"
  by (simp add: old_code_counts_def Counter_def targets_of_def)

text \<open>
  C3, for a record list without exact duplicates: in either direction the keys of \<open>fanout\<close>
  are the source codes of the records, each once, and the count of a source code is the
  number of distinct target values of its group.
\<close>

theorem fanout_counts_group:
  assumes "distinct records"
  shows "distinct (map fst (fanout d records)) \<and>
   fst ` set (fanout d records) = source d ` set records \<and>
   map_of (fanout d records) s =
     (if s \<in> source d ` set records then Some (card (set (targets_of d records s))) else None)"
proof -
  have "length (targets_of d records s) = card (set (targets_of d records s))"
    using targets_of_distinct [OF assms, of d s] by (simp add: distinct_card)
  then show ?thesis
    by (simp add: fanout_lookup) (simp add: fanout_Counter Counter_distinct Counter_keys)
qed

theorem fanout_counts_group_witness:
  "distinct [(''A'', ''X''), (''A'', ''Y''), (''B'', ''X'')] \<and>
   map_of (fanout new_to_old [(''A'', ''X''), (''A'', ''Y''), (''B'', ''X'')]) ''X'' = Some 2 \<and>
   card (set (targets_of new_to_old [(''A'', ''X''), (''A'', ''Y''), (''B'', ''X'')] ''X'')) = 2"
proof -
  have d: "distinct [(''A'', ''X''), (''A'', ''Y''), (''B'', ''X'')]" by simp
  from fanout_counts_group [OF d, of new_to_old "''X''"] d show ?thesis
    by (simp add: targets_of_def)
qed

subsection \<open>The sums of the histogram\<close>

text \<open>
  Claim C4 says that the histogram's fan-outs, weighted by the number of source codes that
  have them, add up to the number of distinct (source, target) pairs. They add up to the
  number of records (lemma \<open>histogram_weighted_sum\<close>): with a record repeated, the weighted
  sum is 2 and there is 1 pair.
\<close>

theorem histogram_weighted_sum_duplicate_records:
  "weighted_sum (histogram old_to_new [(''A'', ''X''), (''A'', ''X'')]) = 2 \<and>
   card (set [(''A'', ''X''), (''A'', ''X'')]) = 1"
  by (simp add: weighted_sum_def old_code_count_distribution_def count_distribution_def
      old_code_counts_def Counter_def)

text \<open>
  C4: in either direction the values of the histogram add up to the number of distinct
  source codes; and for a record list without exact duplicates the fan-outs weighted by
  their values add up to the number of distinct (source, target) pairs.
\<close>

theorem histogram_sums:
  "sum_list (map snd (histogram d records)) = card (source d ` set records) \<and>
   (distinct records \<longrightarrow> weighted_sum (histogram d records) = card (set records))"
  by (simp add: histogram_values_sum histogram_weighted_sum distinct_card)

theorem histogram_sums_witness:
  "distinct [(''A'', ''X''), (''A'', ''Y''), (''B'', ''X'')] \<and>
   histogram old_to_new [(''A'', ''X''), (''A'', ''Y''), (''B'', ''X'')] = [(1, 1), (2, 1)] \<and>
   weighted_sum (histogram old_to_new [(''A'', ''X''), (''A'', ''Y''), (''B'', ''X'')]) =
     card (set [(''A'', ''X''), (''A'', ''Y''), (''B'', ''X'')])"
  using histogram_sums [of old_to_new "[(''A'', ''X''), (''A'', ''Y''), (''B'', ''X'')]"]
  by (simp add: old_code_count_distribution_def count_distribution_def old_code_counts_def Counter_def)

section \<open>Properties of the loader\<close>

lemma index_of_None: "index_of xs c = None \<longleftrightarrow> c \<notin> set xs"
  by (induction xs) auto

lemma index_of_Some: "index_of xs c = Some i \<Longrightarrow> i < length xs \<and> xs ! i = c"
  by (induction xs arbitrary: i) (auto split: if_splits)

lemma index_of_member: "c \<in> set xs \<Longrightarrow> \<exists>i. index_of xs c = Some i"
  by (cases "index_of xs c") (simp_all add: index_of_None)

lemma select_rows_map: "map fst (filter snd (zip xs (map g xs))) = filter g xs"
  by (induction xs) auto

lemma columns_select_rows: "columns (select_rows df keep) = columns df"
  by (simp add: select_rows_def)

lemma select_rows_cells:
  "rows (select_rows df (map P (map f (rows df)))) = filter (\<lambda>r. P (f r)) (rows df)"
proof -
  have "map P (map f (rows df)) = map (\<lambda>r. P (f r)) (rows df)" by simp
  then show ?thesis by (simp add: select_rows_def select_rows_map del: map_map)
qed

lemma pair_key_le: "[a, b] \<le> [c, d] \<longleftrightarrow> (a, b) \<le> ((c, d) :: string \<times> string)"
  by (auto simp: less_eq_prod_def)

lemma sorted_pair_keys:
  "sorted (map (\<lambda>r. [f r, g r]) rs) = sorted (map (\<lambda>r. (f r, g r) :: string \<times> string) rs)"
  by (induction rs) (auto simp: pair_key_le)

lemma getitem_Some:
  "index_of (columns df) label = Some i \<Longrightarrow> getitem df label = Inr (map (\<lambda>r. r ! i) (rows df))"
  by (simp add: getitem_def)

lemma sort_values_two:
  "index_of (columns df) a = Some i \<Longrightarrow> index_of (columns df) b = Some j \<Longrightarrow>
   sort_values df [a, b] = Inr (df\<lparr>rows := sort_key (\<lambda>r. [r ! i, r ! j]) (rows df)\<rparr>)"
  by (simp add: sort_values_def)

lemma bnf_mapping_run:
  assumes "index_of (columns (rename column_rename_map raw)) ''changed'' = Some ic"
    and "index_of (columns (rename column_rename_map raw)) ''old_code'' = Some io"
    and "index_of (columns (rename column_rename_map raw)) ''new_code'' = Some inw"
  shows "bnf_mapping raw = Inr \<lparr>columns = columns (rename column_rename_map raw),
      rows = sort_key (\<lambda>r. [r ! io, r ! inw])
        (filter (\<lambda>r. \<not> startswith (r ! inw) ''19'')
          (filter (\<lambda>r. \<not> startswith (r ! io) ''19'')
            (filter (\<lambda>r. r ! ic = ''Y'') (rows raw))))\<rparr>"
proof -
  let ?df0 = "rename column_rename_map raw"
  have r0: "rows ?df0 = rows raw" by (simp add: rename_def)
  let ?df1 = "select_rows ?df0 (map (\<lambda>v. v = ''Y'') (map (\<lambda>r. r ! ic) (rows ?df0)))"
  have g0: "getitem ?df0 ''changed'' = Inr (map (\<lambda>r. r ! ic) (rows ?df0))"
    by (rule getitem_Some) (rule assms)
  have r1: "rows ?df1 = filter (\<lambda>r. r ! ic = ''Y'') (rows raw)"
    using select_rows_cells [of ?df0 "\<lambda>v. v = ''Y''" "\<lambda>r. r ! ic"] by (simp only: r0)
  have c1: "columns ?df1 = columns ?df0" by (rule columns_select_rows)
  let ?df2 = "select_rows ?df1 (map (\<lambda>v. \<not> startswith v ''19'') (map (\<lambda>r. r ! io) (rows ?df1)))"
  have g1: "getitem ?df1 ''old_code'' = Inr (map (\<lambda>r. r ! io) (rows ?df1))"
    by (rule getitem_Some) (simp only: c1 assms)
  have r2: "rows ?df2 = filter (\<lambda>r. \<not> startswith (r ! io) ''19'') (filter (\<lambda>r. r ! ic = ''Y'') (rows raw))"
    using select_rows_cells [of ?df1 "\<lambda>v. \<not> startswith v ''19''" "\<lambda>r. r ! io"] by (simp only: r1)
  have c2: "columns ?df2 = columns ?df0" by (simp only: columns_select_rows)
  let ?df3 = "select_rows ?df2 (map (\<lambda>v. \<not> startswith v ''19'') (map (\<lambda>r. r ! inw) (rows ?df2)))"
  have g2: "getitem ?df2 ''new_code'' = Inr (map (\<lambda>r. r ! inw) (rows ?df2))"
    by (rule getitem_Some) (simp only: c2 assms)
  have r3: "rows ?df3 = filter (\<lambda>r. \<not> startswith (r ! inw) ''19'')
      (filter (\<lambda>r. \<not> startswith (r ! io) ''19'') (filter (\<lambda>r. r ! ic = ''Y'') (rows raw)))"
    using select_rows_cells [of ?df2 "\<lambda>v. \<not> startswith v ''19''" "\<lambda>r. r ! inw"] by (simp only: r2)
  have c3: "columns ?df3 = columns ?df0" by (simp only: columns_select_rows)
  have s: "sort_values ?df3 [''old_code'', ''new_code''] =
      Inr (?df3\<lparr>rows := sort_key (\<lambda>r. [r ! io, r ! inw]) (rows ?df3)\<rparr>)"
    by (rule sort_values_two) (simp_all only: c3 assms)
  have "bnf_mapping raw = sort_values ?df3 [''old_code'', ''new_code'']"
    unfolding bnf_mapping_def Let_def g0 sum.case g1 g2 ..
  also have "\<dots> = Inr \<lparr>columns = columns ?df0, rows = sort_key (\<lambda>r. [r ! io, r ! inw]) (rows ?df3)\<rparr>"
    unfolding s using c3 by (cases ?df3) simp
  finally show ?thesis unfolding r3 .
qed

lemma bnf_mapping_KeyError:
  assumes "''changed'' \<notin> set (columns (rename column_rename_map raw)) \<or>
           ''old_code'' \<notin> set (columns (rename column_rename_map raw)) \<or>
           ''new_code'' \<notin> set (columns (rename column_rename_map raw))"
  shows "bnf_mapping raw = Inl KeyError"
  using assms
  by (auto simp add: bnf_mapping_def Let_def getitem_def sort_values_def columns_select_rows
        index_of_None [symmetric] simp del: map_map split: option.splits)

lemma bnf_mapping_succeeds:
  assumes "''changed'' \<in> set (columns (rename column_rename_map raw))"
    and "''old_code'' \<in> set (columns (rename column_rename_map raw))"
    and "''new_code'' \<in> set (columns (rename column_rename_map raw))"
  shows "\<exists>out. bnf_mapping raw = Inr out \<and> columns out = columns (rename column_rename_map raw)"
proof -
  from assms obtain ic io inw where
    "index_of (columns (rename column_rename_map raw)) ''changed'' = Some ic"
    "index_of (columns (rename column_rename_map raw)) ''old_code'' = Some io"
    "index_of (columns (rename column_rename_map raw)) ''new_code'' = Some inw"
    by (meson index_of_member)
  then show ?thesis by (simp add: bnf_mapping_run)
qed

lemma rename_member:
  "c \<in> set (columns df) \<Longrightarrow> map_of mapper c = Some c' \<Longrightarrow> c' \<in> set (columns (rename mapper df))"
  by (force simp: rename_def image_iff)

lemma renamed_columns:
  assumes "fst ` set column_rename_map \<subseteq> set (columns raw)"
  shows "''changed'' \<in> set (columns (rename column_rename_map raw))"
    and "''old_code'' \<in> set (columns (rename column_rename_map raw))"
    and "''new_code'' \<in> set (columns (rename column_rename_map raw))"
proof -
  have a: "''BNF Code Changed (Y/N)'' \<in> set (columns raw)"
    and b: "''Current BNF Code'' \<in> set (columns raw)"
    and c: "''New BNF Code'' \<in> set (columns raw)"
    using assms by (simp_all add: column_rename_map_def)
  have "map_of column_rename_map ''BNF Code Changed (Y/N)'' = Some ''changed''"
    by (simp add: column_rename_map_def)
  with a show "''changed'' \<in> set (columns (rename column_rename_map raw))"
    by (rule rename_member)
  have "map_of column_rename_map ''Current BNF Code'' = Some ''old_code''"
    by (simp add: column_rename_map_def)
  with b show "''old_code'' \<in> set (columns (rename column_rename_map raw))"
    by (rule rename_member)
  have "map_of column_rename_map ''New BNF Code'' = Some ''new_code''"
    by (simp add: column_rename_map_def)
  with c show "''new_code'' \<in> set (columns (rename column_rename_map raw))"
    by (rule rename_member)
qed

subsection \<open>The rows that are kept, and their order\<close>

text \<open>
  C2: for every table that, after the renaming, has the columns \<^verbatim>\<open>changed\<close>, \<^verbatim>\<open>old_code\<close> and
  \<^verbatim>\<open>new_code\<close> (a rectangular frame, no label twice), the loader returns a frame whose rows
  are exactly, with their multiplicities, the input rows whose changed flag is \<^verbatim>\<open>Y\<close> and
  whose old and new code both do not start with \<^verbatim>\<open>19\<close>, in ascending order of the pair
  (old code, new code).
\<close>

theorem bnf_mapping_filtered_sorted:
  assumes "rectangular raw"
    and "distinct (columns (rename column_rename_map raw))"
    and "index_of (columns (rename column_rename_map raw)) ''changed'' = Some ic"
    and "index_of (columns (rename column_rename_map raw)) ''old_code'' = Some io"
    and "index_of (columns (rename column_rename_map raw)) ''new_code'' = Some inw"
  shows "\<exists>out. bnf_mapping raw = Inr out \<and>
     mset (rows out) =
       mset (filter (\<lambda>r. r ! ic = ''Y'' \<and> \<not> startswith (r ! io) ''19'' \<and> \<not> startswith (r ! inw) ''19'')
              (rows raw)) \<and>
     sorted (map (\<lambda>r. (r ! io, r ! inw)) (rows out))"
proof -
  let ?kept = "filter (\<lambda>r. \<not> startswith (r ! inw) ''19'')
      (filter (\<lambda>r. \<not> startswith (r ! io) ''19'') (filter (\<lambda>r. r ! ic = ''Y'') (rows raw)))"
  let ?out = "\<lparr>columns = columns (rename column_rename_map raw),
      rows = sort_key (\<lambda>r. [r ! io, r ! inw]) ?kept\<rparr>"
  have run: "bnf_mapping raw = Inr ?out" using assms(3-5) by (rule bnf_mapping_run)
  have "?kept = filter (\<lambda>r. r ! ic = ''Y'' \<and> \<not> startswith (r ! io) ''19'' \<and> \<not> startswith (r ! inw) ''19'') (rows raw)"
    by (simp add: conj_commute conj_left_commute)
  then have m: "mset (rows ?out) =
      mset (filter (\<lambda>r. r ! ic = ''Y'' \<and> \<not> startswith (r ! io) ''19'' \<and> \<not> startswith (r ! inw) ''19'') (rows raw))"
    by simp
  have "sorted (map (\<lambda>r. [r ! io, r ! inw]) (rows ?out))" by simp
  then have s: "sorted (map (\<lambda>r. (r ! io, r ! inw)) (rows ?out))"
    by (simp only: sorted_pair_keys)
  from run m s show ?thesis by blast
qed

theorem bnf_mapping_filtered_sorted_witness:
  "rectangular example_raw \<and>
   distinct (columns (rename column_rename_map example_raw)) \<and>
   index_of (columns (rename column_rename_map example_raw)) ''changed'' = Some 4 \<and>
   index_of (columns (rename column_rename_map example_raw)) ''old_code'' = Some 0 \<and>
   index_of (columns (rename column_rename_map example_raw)) ''new_code'' = Some 3 \<and>
   (\<exists>out. bnf_mapping example_raw = Inr out \<and>
     mset (rows out) =
       mset (filter (\<lambda>r. r ! 4 = ''Y'' \<and> \<not> startswith (r ! 0) ''19'' \<and> \<not> startswith (r ! 3) ''19'')
              (rows example_raw)) \<and>
     sorted (map (\<lambda>r. (r ! 0, r ! 3)) (rows out)))"
proof -
  have a: "index_of (columns (rename column_rename_map example_raw)) ''changed'' = Some 4"
    by (simp add: example_raw_def rename_def column_rename_map_def)
  have b: "index_of (columns (rename column_rename_map example_raw)) ''old_code'' = Some 0"
    by (simp add: example_raw_def rename_def column_rename_map_def)
  have c: "index_of (columns (rename column_rename_map example_raw)) ''new_code'' = Some 3"
    by (simp add: example_raw_def rename_def column_rename_map_def)
  have d: "distinct (columns (rename column_rename_map example_raw))"
    by (simp add: example_raw_def rename_def column_rename_map_def)
  have e: "rectangular example_raw"
    by (simp add: example_raw_def rectangular_def)
  from bnf_mapping_filtered_sorted [OF e d a b c] a b c d e show ?thesis by blast
qed

subsection \<open>Missing columns\<close>

text \<open>
  Claim C8 says that the loader fails with a schema error as soon as one expected source
  column is absent. Renaming ignores absent columns; a spreadsheet without the two
  description columns is loaded.
\<close>

theorem bnf_mapping_without_descriptions:
  "''MDR: BNF Description'' \<notin> set (columns example_raw_without_descriptions) \<and>
   distinct (columns (rename column_rename_map example_raw_without_descriptions)) \<and>
   bnf_mapping example_raw_without_descriptions =
     Inr \<lparr>columns = [''old_code'', ''new_code'', ''changed''], rows = [[''0B'', ''0Z'', ''Y'']]\<rparr>"
  by (simp add: example_raw_without_descriptions_def bnf_mapping_def rename_def column_rename_map_def
      getitem_def select_rows_def startswith_def sort_values_def)

text \<open>
  C8, as the code has it, for a table whose labels are distinct after the renaming: the
  loader fails exactly when, after the renaming, one of the columns \<^verbatim>\<open>changed\<close>, \<^verbatim>\<open>old_code\<close>
  and \<^verbatim>\<open>new_code\<close> is missing, and the failure is the \<^verbatim>\<open>KeyError\<close> of the column access;
  otherwise it returns a frame with the renamed columns. With every expected source column
  present it succeeds.
\<close>

theorem bnf_mapping_fails_iff:
  assumes "distinct (columns (rename column_rename_map raw))"
  shows "(bnf_mapping raw = Inl KeyError \<longleftrightarrow>
      \<not> {''changed'', ''old_code'', ''new_code''} \<subseteq> set (columns (rename column_rename_map raw))) \<and>
   (bnf_mapping raw \<noteq> Inl KeyError \<longrightarrow>
      (\<exists>out. bnf_mapping raw = Inr out \<and> columns out = columns (rename column_rename_map raw))) \<and>
   (fst ` set column_rename_map \<subseteq> set (columns raw) \<longrightarrow> (\<exists>out. bnf_mapping raw = Inr out))"
proof (cases "{''changed'', ''old_code'', ''new_code''} \<subseteq> set (columns (rename column_rename_map raw))")
  case True
  then obtain out where "bnf_mapping raw = Inr out \<and> columns out = columns (rename column_rename_map raw)"
    using bnf_mapping_succeeds [of raw] by auto
  with True show ?thesis by auto
next
  case False
  then have "bnf_mapping raw = Inl KeyError" by (intro bnf_mapping_KeyError) auto
  with False renamed_columns [of raw] show ?thesis by auto
qed

theorem bnf_mapping_fails_iff_witness:
  "distinct (columns (rename column_rename_map example_raw)) \<and>
   fst ` set column_rename_map \<subseteq> set (columns example_raw) \<and>
   bnf_mapping example_raw \<noteq> Inl KeyError \<and>
   (\<exists>out. bnf_mapping example_raw = Inr out \<and>
      columns out = [''old_code'', ''old_name'', ''new_name'', ''new_code'', ''changed''])"
proof -
  have a: "fst ` set column_rename_map \<subseteq> set (columns example_raw)"
    by (simp add: example_raw_def column_rename_map_def)
  have b: "columns (rename column_rename_map example_raw) =
      [''old_code'', ''old_name'', ''new_name'', ''new_code'', ''changed'']"
    by (simp add: example_raw_def rename_def column_rename_map_def)
  have d: "distinct (columns (rename column_rename_map example_raw))"
    unfolding b by simp
  from bnf_mapping_fails_iff [OF d] a d show ?thesis
    unfolding b by auto
qed

section \<open>Properties of the concentration figures\<close>

subsection \<open>Rounding to binary64\<close>

lemma bitlen_powi_bounds:
  assumes "0 < a"
  shows "(2::rat) powi (bitlen a - 1) \<le> of_int a" and "of_int a < (2::rat) powi bitlen a"
proof -
  have l: "1 \<le> bitlen a" using assms by (simp add: bitlen_alt_def)
  have b: "2 ^ nat (bitlen a - 1) \<le> a \<and> a < 2 ^ nat (bitlen a)"
    using assms by (rule bitlen_bounds)
  have "(of_int (2 ^ nat (bitlen a - 1)) :: rat) \<le> of_int a"
    using b by (simp only: of_int_le_iff)
  then show "(2::rat) powi (bitlen a - 1) \<le> of_int a"
    using l by (simp add: power_int_def)
  have "(of_int a :: rat) < of_int (2 ^ nat (bitlen a))"
    using b by (simp only: of_int_less_iff)
  then show "of_int a < (2::rat) powi bitlen a"
    using l by (simp add: power_int_def)
qed

lemma binade_bounds:
  assumes "x \<noteq> 0"
  shows "2 powi binade x \<le> \<bar>x\<bar>" and "\<bar>x\<bar> < 2 powi (binade x + 1)"
proof -
  obtain a b where q: "quotient_of \<bar>x\<bar> = (a, b)" by (cases "quotient_of \<bar>x\<bar>")
  have b: "0 < b" using q by (rule quotient_of_denom_pos)
  have x: "\<bar>x\<bar> = of_int a / of_int b" using q by (rule quotient_of_div)
  have "0 < \<bar>x\<bar>" using assms by simp
  then have a: "0 < a" using b unfolding x by (simp add: zero_less_divide_iff)
  define d where "d = bitlen a - bitlen b"
  have e: "binade x = (if 2 powi d \<le> \<bar>x\<bar> then d else d - 1)"
    by (simp add: binade_def q d_def)
  have up: "\<bar>x\<bar> < 2 powi (d + 1)"
  proof -
    have "of_int a / of_int b < (2::rat) powi bitlen a / 2 powi (bitlen b - 1)"
      using bitlen_powi_bounds(2) [OF a] bitlen_powi_bounds(1) [OF b] a
      by (intro frac_less) simp_all
    also have "\<dots> = 2 powi (d + 1)"
      by (simp add: d_def power_int_diff [symmetric] algebra_simps)
    finally show ?thesis unfolding x .
  qed
  have lo: "2 powi (d - 1) \<le> \<bar>x\<bar>"
  proof -
    have "(2::rat) powi (bitlen a - 1) / 2 powi bitlen b \<le> of_int a / of_int b"
      using bitlen_powi_bounds(1) [OF a] bitlen_powi_bounds(2) [OF b] a b
      by (intro frac_le) simp_all
    moreover have "(2::rat) powi (bitlen a - 1) / 2 powi bitlen b = 2 powi (d - 1)"
      by (simp add: d_def power_int_diff [symmetric] algebra_simps)
    ultimately show ?thesis unfolding x by simp
  qed
  show "2 powi binade x \<le> \<bar>x\<bar>" using lo by (simp add: e)
  show "\<bar>x\<bar> < 2 powi (binade x + 1)" using up by (auto simp add: e not_le)
qed

lemma powi2_less_cancel:
  assumes "(2::rat) powi m < 2 powi n"
  shows "m < n"
proof (rule ccontr)
  assume "\<not> m < n"
  then have "(2::rat) powi n \<le> 2 powi m" by (intro power_int_increasing) simp_all
  with assms show False by simp
qed

lemma binade_unique:
  assumes "2 powi e \<le> \<bar>x\<bar>" and "\<bar>x\<bar> < 2 powi (e + 1)"
  shows "binade x = e"
proof -
  have "(0::rat) < 2 powi e" by simp
  then have "0 < \<bar>x\<bar>" using assms(1) by (rule less_le_trans)
  then have x: "x \<noteq> 0" by simp
  have "2 powi binade x < (2::rat) powi (e + 1)"
    using binade_bounds(1) [OF x] assms(2) by simp
  then have a: "binade x < e + 1" by (rule powi2_less_cancel)
  have "2 powi e < (2::rat) powi (binade x + 1)"
    using binade_bounds(2) [OF x] assms(1) by simp
  then have "e < binade x + 1" by (rule powi2_less_cancel)
  with a show ?thesis by simp
qed

lemma binade_mono:
  assumes "0 < x" and "x \<le> y"
  shows "binade x \<le> binade y"
proof -
  have "2 powi binade x \<le> \<bar>x\<bar>" using assms(1) by (intro binade_bounds) simp
  also have "\<dots> \<le> \<bar>y\<bar>" using assms by simp
  also have "\<dots> < 2 powi (binade y + 1)" using assms by (intro binade_bounds) simp
  finally have "(2::rat) powi binade x < 2 powi (binade y + 1)" .
  then have "binade x < binade y + 1" by (rule powi2_less_cancel)
  then show ?thesis by simp
qed

lemma round_half_even_of_int: "round_half_even (of_int n) = n"
  by (simp add: round_half_even_def)

lemma round_half_even_bounds: "\<lfloor>x\<rfloor> \<le> round_half_even x" "round_half_even x \<le> \<lfloor>x\<rfloor> + 1"
  by (simp_all add: round_half_even_def Let_def)

lemma round_half_even_mono:
  assumes "x \<le> y"
  shows "round_half_even x \<le> round_half_even y"
proof (cases "\<lfloor>x\<rfloor> = \<lfloor>y\<rfloor>")
  case True
  have "x - of_int \<lfloor>y\<rfloor> \<le> y - of_int \<lfloor>y\<rfloor>" using assms by simp
  then show ?thesis
    unfolding round_half_even_def Let_def True by auto
next
  case False
  have "\<lfloor>x\<rfloor> \<le> \<lfloor>y\<rfloor>" using assms by (rule floor_mono)
  with False have "\<lfloor>x\<rfloor> + 1 \<le> \<lfloor>y\<rfloor>" by simp
  with round_half_even_bounds(2) [of x] round_half_even_bounds(1) [of y] show ?thesis by simp
qed

lemma on_grid:
  assumes "0 < ulp" and "x = of_int n * ulp"
  shows "of_int (round_half_even (x / ulp)) * ulp = x"
  using assms by (simp add: round_half_even_of_int)

lemma grid_mono:
  assumes "0 < ulp" and "x \<le> y"
  shows "of_int (round_half_even (x / ulp)) * ulp \<le> (of_int (round_half_even (y / ulp)) * ulp :: rat)"
proof -
  have "x / ulp \<le> y / ulp" using assms by (simp add: divide_right_mono)
  then have "round_half_even (x / ulp) \<le> round_half_even (y / ulp)" by (rule round_half_even_mono)
  then show ?thesis using assms(1) by (simp add: mult_right_mono)
qed

lemma powi2_split: "m \<le> n \<Longrightarrow> (2::rat) powi n = of_int (2 ^ nat (n - m)) * 2 powi m"
proof -
  assume "m \<le> n"
  then have "(2::rat) powi (n - m) = 2 ^ nat (n - m)" by (simp add: power_int_def)
  moreover have "(2::rat) powi n = 2 powi (n - m) * 2 powi m"
    by (simp add: power_int_add [symmetric])
  ultimately show ?thesis by simp
qed

lemma nearest_binary64_mono:
  assumes "0 < x" and "x \<le> y"
  shows "nearest_binary64 x \<le> nearest_binary64 y"
proof -
  define ex where "ex = max (binade x) (- 1022)"
  define ey where "ey = max (binade y) (- 1022)"
  have y: "0 < y" using assms by simp
  have exy: "ex \<le> ey" unfolding ex_def ey_def using binade_mono [OF assms] by simp
  have nx: "nearest_binary64 x = of_int (round_half_even (x / 2 powi (ex - 52))) * 2 powi (ex - 52)"
    by (simp add: nearest_binary64_def Let_def ex_def)
  have ny: "nearest_binary64 y = of_int (round_half_even (y / 2 powi (ey - 52))) * 2 powi (ey - 52)"
    by (simp add: nearest_binary64_def Let_def ey_def)
  show ?thesis
  proof (cases "ex = ey")
    case True
    show ?thesis unfolding nx ny True using assms(2) by (intro grid_mono) simp_all
  next
    case False
    with exy have lt: "ex < ey" by simp
    then have eyb: "ey = binade y" unfolding ex_def ey_def by arith
    define B :: rat where "B = 2 powi ey"
    have "x < 2 powi (binade x + 1)" using binade_bounds(2) [of x] assms(1) by simp
    also have "\<dots> \<le> 2 powi ey"
      using lt unfolding ex_def by (intro power_int_increasing) simp_all
    finally have xB: "x \<le> B" unfolding B_def by simp
    have By: "B \<le> y" unfolding B_def eyb using binade_bounds(1) [of y] y by simp
    have "nearest_binary64 x \<le> of_int (round_half_even (B / 2 powi (ex - 52))) * 2 powi (ex - 52)"
      unfolding nx using xB by (intro grid_mono) simp_all
    also have "\<dots> = B"
      unfolding B_def using lt by (intro on_grid [where n = "2 ^ nat (ey - (ex - 52))"] powi2_split) simp_all
    finally have a: "nearest_binary64 x \<le> B" .
    have "B = of_int (round_half_even (B / 2 powi (ey - 52))) * 2 powi (ey - 52)"
      unfolding B_def by (intro on_grid [symmetric, where n = "2 ^ nat (ey - (ey - 52))"] powi2_split) simp_all
    also have "\<dots> \<le> nearest_binary64 y"
      unfolding ny using By by (intro grid_mono) simp_all
    finally show ?thesis using a by simp
  qed
qed

lemma nearest_binary64_nonneg:
  assumes "0 < x"
  shows "0 \<le> nearest_binary64 x"
proof -
  have "0 \<le> x / 2 powi (max (binade x) (- 1022) - 52)" using assms by simp
  then have "round_half_even 0 \<le> round_half_even (x / 2 powi (max (binade x) (- 1022) - 52))"
    by (rule round_half_even_mono)
  then show ?thesis
    by (simp add: nearest_binary64_def Let_def round_half_even_def)
qed

lemma round64_nonneg:
  assumes "0 \<le> x"
  shows "less_equal (Finite 0) (round64 x)"
  using assms nearest_binary64_nonneg [of x]
  by (cases "x = 0") (simp_all add: round64_def Let_def)

lemma round64_mono:
  assumes "0 \<le> x" and "x \<le> y"
  shows "less_equal (round64 x) (round64 y)"
proof (cases "x = 0")
  case True
  with assms round64_nonneg [of y] show ?thesis by (simp add: round64_def)
next
  case False
  with assms have x: "0 < x" and y: "0 < y" by simp_all
  have m: "nearest_binary64 x \<le> nearest_binary64 y" using x assms(2) by (rule nearest_binary64_mono)
  have "0 \<le> nearest_binary64 x" "0 \<le> nearest_binary64 y"
    using x y by (simp_all add: nearest_binary64_nonneg)
  with m x y show ?thesis by (simp add: round64_def Let_def)
qed

subsection \<open>Sums of 64-bit integers and their quotients\<close>

lemma wrap64_id: "- (2 ^ 63) \<le> n \<Longrightarrow> n < 2 ^ 63 \<Longrightarrow> wrap64 n = n"
  by (simp add: wrap64_def)

lemma round64_dyadic:
  assumes "0 < m" and "m < 2 ^ 53" and "- 1074 \<le> k" and "k \<le> 971"
  shows "round64 (of_int m * 2 powi k) = Finite (of_int m * 2 powi k)"
proof -
  define x :: rat where "x = of_int m * 2 powi k"
  define e where "e = max (binade x) (- 1022)"
  have xp: "0 < x" using assms(1) by (simp add: x_def)
  then have x0: "x \<noteq> 0" and xa: "\<bar>x\<bar> = x" by simp_all
  have "(of_int m :: rat) < of_int (2 ^ 53)" using assms(2) by (simp only: of_int_less_iff)
  then have "x < 2 powi 53 * 2 powi k" unfolding x_def by (intro mult_strict_right_mono) simp_all
  then have xk: "x < 2 powi (53 + k)" by (simp add: power_int_add)
  have "2 powi binade x \<le> x" using binade_bounds(1) [OF x0] by (simp add: xa)
  with xk have "(2::rat) powi binade x < 2 powi (53 + k)" by simp
  then have "binade x < 53 + k" by (rule powi2_less_cancel)
  with assms(3) have ek: "e - 52 \<le> k" unfolding e_def by simp
  have "x = of_int m * (of_int (2 ^ nat (k - (e - 52))) * 2 powi (e - 52))"
    unfolding x_def using powi2_split [OF ek] by simp
  then have "x = of_int (m * 2 ^ nat (k - (e - 52))) * 2 powi (e - 52)" by simp
  then have "of_int (round_half_even (x / 2 powi (e - 52))) * 2 powi (e - 52) = x"
    by (intro on_grid [where n = "m * 2 ^ nat (k - (e - 52))"]) simp_all
  then have near: "nearest_binary64 x = x"
    by (simp add: nearest_binary64_def Let_def e_def)
  have "(2::rat) powi (53 + k) \<le> 2 powi 1024"
    using assms(4) by (intro power_int_increasing) simp_all
  with xk have "x < 2 powi 1024" by simp
  then show ?thesis
    using x0 near xa by (simp add: round64_def Let_def x_def [symmetric])
qed

lemma round64_int_exact:
  assumes "0 \<le> n" and "n < 2 ^ 53"
  shows "round64 (of_int n) = Finite (of_int n)"
proof (cases "n = 0")
  case True
  then show ?thesis by (simp add: round64_def)
next
  case False
  with assms have "0 < n" by simp
  from round64_dyadic [OF this assms(2), of 0] show ?thesis by simp
qed

lemma round64_between:
  assumes "0 \<le> lo" and "lo \<le> x" and "x \<le> hi"
    and "round64 lo = Finite lo" and "round64 hi = Finite hi"
  shows "\<exists>a. round64 x = Finite a \<and> lo \<le> a \<and> a \<le> hi"
proof -
  have a: "less_equal (Finite lo) (round64 x)"
    using round64_mono [OF assms(1,2)] by (simp add: assms(4))
  have "0 \<le> x" using assms(1,2) by simp
  then have b: "less_equal (round64 x) (Finite hi)"
    using round64_mono [OF _ assms(3)] by (simp add: assms(5))
  from a b show ?thesis by (cases "round64 x") simp_all
qed

lemma round64_0: "round64 0 = Finite 0"
  by (simp add: round64_def)

lemma round64_1: "round64 1 = Finite 1"
  using round64_int_exact [of 1] by simp

lemma round64_100: "round64 100 = Finite 100"
  using round64_int_exact [of 100] by simp

lemma round64_2_63: "round64 (2 ^ 63) = Finite (2 ^ 63)"
  by code_simp

lemma float_of_int_range:
  assumes "0 \<le> m" and "m \<le> n" and "n < 2 ^ 63"
  shows "\<exists>a b. float_of_int m = Finite a \<and> float_of_int n = Finite b \<and> 0 \<le> a \<and> a \<le> b"
proof -
  have n63: "(of_int n :: rat) \<le> 2 ^ 63"
  proof -
    have "n \<le> 2 ^ 63" using assms(3) by simp
    then have "(of_int n :: rat) \<le> of_int (2 ^ 63)" by (simp only: of_int_le_iff)
    then show ?thesis by simp
  qed
  have mn: "(of_int m :: rat) \<le> of_int n" using assms(2) by simp
  have m0: "(0::rat) \<le> of_int m" using assms(1) by simp
  obtain b where b: "round64 (of_int n) = Finite b" "0 \<le> b"
    using round64_between [OF _ _ n63 round64_0 round64_2_63] m0 mn by auto
  have le: "less_equal (round64 (of_int m)) (round64 (of_int n))"
    using m0 mn by (rule round64_mono)
  have ge: "less_equal (Finite 0) (round64 (of_int m))"
    using m0 by (rule round64_nonneg)
  from le ge b show ?thesis
    unfolding float_of_int_def by (cases "round64 (of_int m)") simp_all
qed

lemma float_of_int_pos:
  assumes "0 < n" and "n < 2 ^ 63"
  shows "\<exists>b. float_of_int n = Finite b \<and> 1 \<le> b"
proof -
  have "1 \<le> n" using assms(1) by simp
  with float_of_int_range [of 1 n] assms(2) obtain a b
    where "float_of_int 1 = Finite a" "float_of_int n = Finite b" "a \<le> b" by auto
  then show ?thesis using round64_1 by (simp add: float_of_int_def)
qed

lemma sum_filter_mono:
  fixes xs :: "int list"
  assumes "\<forall>x\<in>set xs. 0 \<le> x" and "\<And>x. P x \<Longrightarrow> Q x"
  shows "sum_list (filter P xs) \<le> sum_list (filter Q xs)"
  using assms by (induction xs) (auto intro: add_increasing)

lemma sum_filter_nonneg:
  fixes xs :: "int list"
  assumes "\<forall>x\<in>set xs. 0 \<le> x"
  shows "0 \<le> sum_list (filter P xs)"
  using assms by (induction xs) auto

lemma sum_filter_le_all:
  fixes xs :: "int list"
  assumes "\<forall>x\<in>set xs. 0 \<le> x"
  shows "sum_list (filter P xs) \<le> sum_list xs"
  using sum_filter_mono [OF assms, of P "\<lambda>_. True"] by simp

text \<open>The share of a selection of rows, when nothing wraps.\<close>

lemma share_of_selection:
  assumes "\<forall>x\<in>set items1. 0 \<le> x" and "0 < sum_list items1" and "sum_list items1 < 2 ^ 63"
  shows "\<exists>a b. float_of_int (int64_sum (filter P items1)) = Finite a \<and>
           float_of_int (int64_sum items1) = Finite b \<and> 0 \<le> a \<and> a \<le> b \<and> 1 \<le> b \<and>
           true_divide (float_of_int (int64_sum (filter P items1))) (float_of_int (int64_sum items1)) =
             round64 (a / b)"
proof -
  have s0: "0 \<le> sum_list (filter P items1)" using assms(1) by (rule sum_filter_nonneg)
  have s1: "sum_list (filter P items1) \<le> sum_list items1" using assms(1) by (rule sum_filter_le_all)
  have w1: "int64_sum (filter P items1) = sum_list (filter P items1)"
    unfolding int64_sum_def using s0 s1 assms(3) by (intro wrap64_id) simp_all
  have w2: "int64_sum items1 = sum_list items1"
    unfolding int64_sum_def using assms(2,3) by (intro wrap64_id) simp_all
  obtain a b where ab: "float_of_int (sum_list (filter P items1)) = Finite a"
      "float_of_int (sum_list items1) = Finite b" "0 \<le> a" "a \<le> b"
    using float_of_int_range [OF s0 s1 assms(3)] by auto
  obtain b' where "float_of_int (sum_list items1) = Finite b'" "1 \<le> b'"
    using float_of_int_pos [OF assms(2,3)] by auto
  with ab have b1: "1 \<le> b" by simp
  then have "b \<noteq> 0" by simp
  with ab b1 show ?thesis unfolding w1 w2 by simp
qed



subsection \<open>Values of the examples\<close>


lemma round64_numeral: "(numeral k :: int) < 2 ^ 53 \<Longrightarrow> round64 (numeral k) = Finite (numeral k)"
  using round64_int_exact [of "numeral k"] by simp

lemma round64_half: "round64 (1 / 2) = Finite (1 / 2)"
  using round64_dyadic [of 1 "- 1"] by simp

lemma round64_three_halves: "round64 (3 / 2) = Finite (3 / 2)"
  using round64_dyadic [of 3 "- 1"] by simp

lemma round64_2_61: "round64 2305843009213693952 = Finite 2305843009213693952"
  using round64_dyadic [of 1 61] by simp

lemma round64_2_62: "round64 4611686018427387904 = Finite 4611686018427387904"
  using round64_dyadic [of 1 62] by simp

lemma round64_3_2_61: "round64 6917529027641081856 = Finite 6917529027641081856"
  using round64_dyadic [of 3 61] by simp

lemmas exact_values =
  round64_0 round64_1 round64_half round64_three_halves round64_2_61 round64_2_62 round64_3_2_61
  round64_numeral

text \<open>The series \<open>10, 30, 60\<close>: its median is 30 and its minimum 10.\<close>

lemma median_example:
  "reference_quantile (Int64 [10, 30, 60]) (round64 (1 - 1 / 2)) = Inr (Finite 30)"
  by (simp add: linear_interpolation_quantile_def interpolate_def exact_values)


lemma share_half_example:
  "captured_share reference_quantile (Int64 [10, 30, 60]) (1 / 2) = Inr (round64 (3 / 5))"
  unfolding captured_share.simps median_example
  by (simp add: float_of_int_def int64_sum_def wrap64_def exact_values)


lemma percent_example:
  "percent_of_grand_total (Int64 [10, 30, 60]) (Finite 1000) = Finite 10"
  by code_simp

text \<open>The series whose sum wraps: the total of the code is \<open>2\<^sup>6\<^sup>2\<close>, not \<open>10 * 2\<^sup>6\<^sup>1\<close>.\<close>

lemma total_wrapping: "int64_sum wrapping_items = 2 ^ 62 \<and> sum_list wrapping_items = 10 * 2 ^ 61"
  by (simp add: wrapping_items_def int64_sum_def wrap64_def)

lemma median_wrapping:
  "reference_quantile (Int64 wrapping_items) (round64 (1 - 1 / 2)) = Inr (Finite 4611686018427387904)"
  by (simp add: wrapping_items_def linear_interpolation_quantile_def interpolate_def exact_values)


lemma share_half_wrapping:
  "captured_share reference_quantile (Int64 wrapping_items) (1 / 2) = Inr (Finite (3 / 2))"
  unfolding captured_share.simps median_wrapping
  by (simp add: wrapping_items_def float_of_int_def int64_sum_def wrap64_def exact_values)







text \<open>A column without rows: the reference quantile is \<^verbatim>\<open>nan\<close> at every percentile.\<close>

lemma reference_quantile_no_rows:
  assumes "0 \<le> p" and "p \<le> 1"
  shows "reference_quantile Object (round64 (1 - p)) = Inr NaN"
    and "reference_quantile (Int64 []) (round64 (1 - p)) = Inr NaN"
proof -
  have "0 \<le> 1 - p" "1 - p \<le> 1" using assms by simp_all
  then obtain q where "round64 (1 - p) = Finite q" "0 \<le> q" "q \<le> 1"
    using round64_between [OF _ _ _ round64_0 round64_1, of "1 - p"] by auto
  then show "reference_quantile Object (round64 (1 - p)) = Inr NaN"
    and "reference_quantile (Int64 []) (round64 (1 - p)) = Inr NaN"
    by simp_all
qed

lemma zero_over_zero: "float_of_int (int64_sum []) = Finite 0"
  by (simp add: int64_sum_def wrap64_def float_of_int_def round64_0)

lemma share_no_rows:
  assumes "0 \<le> p" and "p \<le> 1"
  shows "captured_share reference_quantile (Int64 []) p = Inr NaN"
    and "captured_share reference_quantile Object p = Inl ZeroDivisionError"
  unfolding captured_share.simps reference_quantile_no_rows [OF assms]
  by (simp_all add: zero_over_zero python_true_divide_def)

subsection \<open>The captured share\<close>







subsection \<open>Bounds\<close>

text \<open>
  Claim C9 has every share in \<open>[0, 1]\<close> when the magnitudes are non-negative and their total
  positive, and the percentage in \<open>[0, 100]\<close> whenever \<open>0 \<le> total \<le> grand_total\<close>. With the
  total and the grand total both 0 the percentage is \<open>0/0 * 100\<close>, which is \<^verbatim>\<open>nan\<close>. On the
  series whose sum wraps, the magnitudes are non-negative, the total of the code is the
  positive number \<open>2\<^sup>6\<^sup>2\<close>, and the share for the percentile \<open>1/2\<close> is \<open>3/2\<close>.
\<close>

theorem percent_of_zero_grand_total:
  "0 \<le> int64_sum [0] \<and> of_int (int64_sum [0]) \<le> (0::rat) \<and>
   percent_of_grand_total (Int64 [0]) (Finite 0) = NaN \<and>
   \<not> less_equal (Finite 0) NaN \<and>
   list_all (\<lambda>x. 0 \<le> x) wrapping_items \<and> 0 < int64_sum wrapping_items \<and>
   captured_share reference_quantile (Int64 wrapping_items) (1 / 2) = Inr (Finite (3 / 2)) \<and>
   \<not> less_equal (Finite (3 / 2)) (Finite 1)"
  using share_half_wrapping total_wrapping
  by (simp add: wrapping_items_def int64_sum_def wrap64_def float_of_int_def round64_0)

text \<open>
  C9, as the code has it. For non-negative 64-bit magnitudes with a positive sum below
  \<open>2\<^sup>6\<^sup>3\<close>, and a percentile at which the library's quantile returns a cutoff, the share is
  printed and lies in \<open>[0, 1]\<close>. When the total of the code is not negative and not above
  the grand total, and the grand total is a positive binary64 number, the percentage lies
  in \<open>[0, 100]\<close>.
\<close>

theorem concentration_bounds:
  "((\<forall>x\<in>set items1. 0 \<le> x) \<and> 0 < sum_list items1 \<and> sum_list items1 < 2 ^ 63 \<and>
      quantile (Int64 items1) (round64 (1 - percentile)) = Inr cutoff \<longrightarrow>
      (\<exists>share. captured_share quantile (Int64 items1) percentile = Inr share \<and>
         less_equal (Finite 0) share \<and> less_equal share (Finite 1))) \<and>
   (0 \<le> int64_sum items1 \<and> of_int (int64_sum items1) \<le> total_items \<and> 0 < total_items \<and>
      round64 total_items = Finite total_items \<longrightarrow>
      less_equal (Finite 0) (percent_of_grand_total (Int64 items1) (Finite total_items)) \<and>
      less_equal (percent_of_grand_total (Int64 items1) (Finite total_items)) (Finite 100))"
proof (intro conjI impI)
  assume h: "(\<forall>x\<in>set items1. 0 \<le> x) \<and> 0 < sum_list items1 \<and> sum_list items1 < 2 ^ 63 \<and>
      quantile (Int64 items1) (round64 (1 - percentile)) = Inr cutoff"
  let ?P = "\<lambda>x. float_less cutoff (float_of_int x)"
  from h obtain a b where ab: "0 \<le> a" "a \<le> b" "1 \<le> b"
    "true_divide (float_of_int (int64_sum (filter ?P items1))) (float_of_int (int64_sum items1)) =
       round64 (a / b)"
    using share_of_selection [of items1 ?P] by auto
  have "0 \<le> a / b" "a / b \<le> 1" using ab by simp_all
  then obtain r where "round64 (a / b) = Finite r" "0 \<le> r" "r \<le> 1"
    using round64_between [OF _ _ _ round64_0 round64_1, of "a / b"] by auto
  with h ab(4) show "\<exists>share. captured_share quantile (Int64 items1) percentile = Inr share \<and>
         less_equal (Finite 0) share \<and> less_equal share (Finite 1)"
    by simp
next
  assume h: "0 \<le> int64_sum items1 \<and> of_int (int64_sum items1) \<le> total_items \<and> 0 < total_items \<and>
      round64 total_items = Finite total_items"
  then have "(0::rat) \<le> of_int (int64_sum items1)" by simp
  then obtain a where a: "float_of_int (int64_sum items1) = Finite a" "0 \<le> a" "a \<le> total_items"
    using round64_between [OF _ _ _ round64_0, of "of_int (int64_sum items1)" total_items] h
    by (auto simp: float_of_int_def)
  have "0 \<le> a / total_items" "a / total_items \<le> 1" using a h by simp_all
  then obtain r where r: "round64 (a / total_items) = Finite r" "0 \<le> r" "r \<le> 1"
    using round64_between [OF _ _ _ round64_0 round64_1, of "a / total_items"] by auto
  have "0 \<le> r * 100" "r * 100 \<le> 100" using r by simp_all
  then obtain p where p: "round64 (r * 100) = Finite p" "0 \<le> p" "p \<le> 100"
    using round64_between [OF _ _ _ round64_0 round64_100, of "r * 100"] by auto
  have "percent_of_grand_total (Int64 items1) (Finite total_items) = Finite p"
    using a r p h by simp
  with p show "less_equal (Finite 0) (percent_of_grand_total (Int64 items1) (Finite total_items))"
    and "less_equal (percent_of_grand_total (Int64 items1) (Finite total_items)) (Finite 100)"
    by simp_all
qed

theorem concentration_bounds_witness:
  "list_all (\<lambda>x. 0 \<le> x) [10, 30, 60 :: int] \<and> 0 < sum_list [10, 30, 60 :: int] \<and>
   sum_list [10, 30, 60 :: int] < 2 ^ 63 \<and>
   reference_quantile (Int64 [10, 30, 60]) (round64 (1 - 1 / 2)) = Inr (Finite 30) \<and>
   captured_share reference_quantile (Int64 [10, 30, 60]) (1 / 2) = Inr (round64 (3 / 5)) \<and>
   less_equal (Finite 0) (round64 (3 / 5)) \<and> less_equal (round64 (3 / 5)) (Finite 1) \<and>
   0 \<le> int64_sum [10, 30, 60] \<and> of_int (int64_sum [10, 30, 60]) \<le> (1000::rat) \<and>
   (0::rat) < 1000 \<and> round64 1000 = Finite 1000 \<and>
   percent_of_grand_total (Int64 [10, 30, 60]) (Finite 1000) = Finite 10 \<and>
   less_equal (Finite 0) (percent_of_grand_total (Int64 [10, 30, 60]) (Finite 1000)) \<and>
   less_equal (percent_of_grand_total (Int64 [10, 30, 60]) (Finite 1000)) (Finite 100)"
  using concentration_bounds [of "[10, 30, 60]" reference_quantile "1 / 2" "Finite 30" 1000]
    median_example share_half_example percent_example
  by (simp del: captured_share.simps percent_of_grand_total.simps
      add: int64_sum_def wrap64_def round64_numeral)

subsection \<open>Equal magnitudes\<close>




subsection \<open>Empty input\<close>

text \<open>
  Claim C7 says that the analyzers fail with an error of their own on empty input. The
  script has no such error and no check for emptiness. Counting an empty column gives an
  empty counter and an empty histogram. The percentile loop on a column of 64-bit integers
  without rows prints \<^verbatim>\<open>nan\<close> for each percentile; on the column that a cached result
  without rows is read back as, it stops at the first percentile with Python's
  \<^verbatim>\<open>ZeroDivisionError\<close>, the division being one of two Python integers 0.
\<close>

theorem empty_input_no_error:
  "fanout old_to_new [] = [] \<and> histogram old_to_new [] = [] \<and>
   percentile_loop reference_quantile (Int64 []) [1 / 100, 1 / 20, 1 / 10, 1 / 5] =
     Inr [(1 / 100, NaN), (1 / 20, NaN), (1 / 10, NaN), (1 / 5, NaN)] \<and>
   percentile_loop reference_quantile Object [1 / 100, 1 / 20, 1 / 10, 1 / 5] =
     Inl ZeroDivisionError"
  by (simp add: old_code_counts_def old_code_count_distribution_def count_distribution_def Counter_def
      share_no_rows del: captured_share.simps)

text \<open>
  C7, as the code has it: on an empty record list \<open>fanout\<close> and the histogram are empty in
  either direction and nothing is raised. On a column of 64-bit integers without rows, when
  the library's quantile returns, the share is \<^verbatim>\<open>nan\<close> and nothing is raised. On the column
  of dtype \<^verbatim>\<open>object\<close> without rows, when the library's quantile returns, the division raises
  \<^verbatim>\<open>ZeroDivisionError\<close>.
\<close>

theorem empty_input_returns:
  "fanout d [] = [] \<and> histogram d [] = [] \<and>
   (quantile (Int64 []) (round64 (1 - percentile)) = Inr cutoff \<longrightarrow>
      captured_share quantile (Int64 []) percentile = Inr NaN) \<and>
   (quantile Object (round64 (1 - percentile)) = Inr cutoff \<longrightarrow>
      captured_share quantile Object percentile = Inl ZeroDivisionError)"
proof -
  have "fanout d [] = []" by (cases d) (simp_all add: old_code_counts_def new_code_counts_def Counter_def)
  moreover have "histogram d [] = []"
    by (cases d)
      (simp_all add: old_code_count_distribution_def new_code_count_distribution_def
        count_distribution_def old_code_counts_def new_code_counts_def Counter_def)
  moreover have "quantile (Int64 []) (round64 (1 - percentile)) = Inr cutoff \<longrightarrow>
      captured_share quantile (Int64 []) percentile = Inr NaN"
    by (simp add: zero_over_zero)
  moreover have "quantile Object (round64 (1 - percentile)) = Inr cutoff \<longrightarrow>
      captured_share quantile Object percentile = Inl ZeroDivisionError"
    by (simp add: python_true_divide_def)
  ultimately show ?thesis by simp
qed

theorem empty_input_returns_witness:
  "fanout new_to_old [] = [] \<and> histogram new_to_old [] = [] \<and>
   reference_quantile (Int64 []) (round64 (1 - 1 / 5)) = Inr NaN \<and>
   captured_share reference_quantile (Int64 []) (1 / 5) = Inr NaN \<and>
   reference_quantile Object (round64 (1 - 1 / 5)) = Inr NaN \<and>
   captured_share reference_quantile Object (1 / 5) = Inl ZeroDivisionError"
  using empty_input_returns [of new_to_old reference_quantile "1 / 5" NaN]
    reference_quantile_no_rows [of "1 / 5"]
  by (simp del: captured_share.simps)

subsection \<open>The rows with the largest magnitudes\<close>

lemma argsort_mset: "mset (argsort df) = mset df"
  and argsort_sorted: "sorted (map snd (argsort df))"
proof -
  have "mset (argsort df) = mset df \<and> sorted (map snd (argsort df))"
  proof (cases "length df \<le> 16")
    case True
    then show ?thesis by (simp add: argsort_def)
  next
    case False
    have "\<exists>sorted_df. mset sorted_df = mset df \<and> sorted (map snd sorted_df)"
      by (rule exI [of _ "sort_key snd df"]) simp
    from someI_ex [OF this] False show ?thesis by (simp add: argsort_def)
  qed
  then show "mset (argsort df) = mset df" and "sorted (map snd (argsort df))" by simp_all
qed

lemma sort_values_descending_mset: "mset (sort_values_descending df1) = mset df1"
  by (simp add: sort_values_descending_def argsort_mset)

lemma sort_values_descending_sorted:
  "sorted_wrt (\<lambda>a b. snd b \<le> snd a) (sort_values_descending df1)"
proof -
  have "sorted (map snd (argsort (rev df1)))" by (rule argsort_sorted)
  then have "sorted_wrt (\<lambda>a b. snd a \<le> snd b) (argsort (rev df1))"
    by (simp add: sorted_wrt_map)
  then show ?thesis by (simp add: sort_values_descending_def sorted_wrt_rev)
qed

text \<open>On a frame of at most 16 rows, rows of equal magnitude keep the order of the frame.\<close>

lemma sort_values_descending_ties:
  assumes "length df1 \<le> 16"
  shows "filter (\<lambda>row. snd row = m) (sort_values_descending df1) = filter (\<lambda>row. snd row = m) df1"
proof -
  have "filter (\<lambda>row. snd row = m) (sort_key snd (rev df1)) = filter (\<lambda>row. snd row = m) (rev df1)"
    by (rule sort_key_stable)
  then have "rev (filter (\<lambda>row. snd row = m) (sort_key snd (rev df1))) =
      rev (filter (\<lambda>row. snd row = m) (rev df1))"
    by (rule arg_cong)
  then show ?thesis
    using assms by (simp add: sort_values_descending_def argsort_def rev_filter)
qed

text \<open>
  Claim C6 has ties broken by identifier, the lexically smaller identifier first. The sort
  has one key, the magnitude: two rows of equal magnitude come out in the order of the
  frame, here \<open>b\<close> before \<open>a\<close>.
\<close>

theorem top_n_tie_in_frame_order:
  "top_n 2 [(''b'', 5), (''a'', 5)] = [(''b'', 5), (''a'', 5)] \<and>
   top_n 1 [(''b'', 5), (''a'', 5)] = [(''b'', 5)] \<and>
   \<not> ties_by_identifier (top_n 2 [(''b'', 5), (''a'', 5)])"
  by (simp add: top_n_def head_def sort_values_descending_def argsort_def ties_by_identifier_def)

text \<open>
  C6, as the code has it: for every series and every \<open>n\<close>, \<open>top_n\<close> returns \<open>min n N\<close> rows of
  the series, in descending order of magnitude, and no row left out has a larger magnitude
  than a row returned. Being a function of the series, it returns the same rows at every
  call. The identifier takes no part in the order.
\<close>

theorem top_largest_descending:
  "length (top_n n df1) = min n (length df1) \<and>
   sorted_wrt (\<lambda>a b. snd b \<le> snd a) (top_n n df1) \<and>
   (\<exists>rest. mset (top_n n df1) + mset rest = mset df1 \<and>
      (\<forall>a\<in>set (top_n n df1). \<forall>b\<in>set rest. snd b \<le> snd a))"
proof -
  let ?ys = "sort_values_descending df1"
  have l: "length ?ys = length df1"
    using sort_values_descending_mset [of df1] by (metis size_mset)
  have s: "sorted_wrt (\<lambda>a b. snd b \<le> snd a) (take n ?ys @ drop n ?ys)"
    using sort_values_descending_sorted [of df1] by simp
  have "mset (take n ?ys) + mset (drop n ?ys) = mset df1"
    using sort_values_descending_mset [of df1] by (metis append_take_drop_id mset_append)
  moreover have "\<forall>a\<in>set (take n ?ys). \<forall>b\<in>set (drop n ?ys). snd b \<le> snd a"
    using s unfolding sorted_wrt_append by blast
  moreover have "sorted_wrt (\<lambda>a b. snd b \<le> snd a) (take n ?ys)"
    using s unfolding sorted_wrt_append by blast
  ultimately show ?thesis
    unfolding top_n_def head_def using l by (auto simp: min_def)
qed

theorem top_largest_descending_witness:
  "top_n 2 [(''b'', 5), (''a'', 5), (''c'', 7)] = [(''c'', 7), (''b'', 5)] \<and>
   length (top_n 2 [(''b'', 5), (''a'', 5), (''c'', 7)]) = min 2 (length [(''b'', 5 :: rat), (''a'', 5), (''c'', 7)]) \<and>
   sorted_wrt (\<lambda>a b. snd b \<le> snd a) (top_n 2 [(''b'', 5), (''a'', 5), (''c'', 7)]) \<and>
   (\<exists>rest. mset (top_n 2 [(''b'', 5), (''a'', 5), (''c'', 7)]) + mset rest = mset [(''b'', 5), (''a'', 5), (''c'', 7)] \<and>
      (\<forall>a\<in>set (top_n 2 [(''b'', 5), (''a'', 5), (''c'', 7)]). \<forall>b\<in>set rest. snd b \<le> snd a))"
proof -
  have "top_n 2 [(''b'', 5), (''a'', 5), (''c'', 7)] = [(''c'', 7), (''b'', 5)]"
    by (simp add: top_n_def head_def sort_values_descending_def argsort_def)
  with top_largest_descending [of 2 "[(''b'', 5), (''a'', 5), (''c'', 7)]"] show ?thesis by blast
qed

end
